theory Spec2Isabelle
  imports Main "HOL-Library.Sublist"
begin

section \<open>The Recipe entity\<close>

text \<open>
  The repository holds three programs around one entity: an in-memory variant (a package
  level slice \<^verbatim>\<open>recipes\<close>), a database variant (a package level gorm handle) and
  the same database variant split into \<^verbatim>\<open>handlers\<close> and \<^verbatim>\<open>models\<close>. The two
  database variants have the same handler bodies, so they are embedded once, with the
  suffix \<open>_db\<close>; the in-memory handlers carry the suffix \<open>_mem\<close>.

  A Go string is a byte sequence, here a \<open>string\<close>. A Go slice of strings is either
  \<^verbatim>\<open>nil\<close> (what the JSON decoder leaves when the key is absent) or a sequence: it is a
  \<open>string list option\<close> with \<open>None\<close> for \<^verbatim>\<open>nil\<close>. A \<^verbatim>\<open>time.Time\<close> is a
  natural number whose value \<open>0\<close> is the zero time.
\<close>

type_synonym time = nat

record Recipe =
  ID :: string
  Name :: string
  Tags :: "string list option"
  Ingredients :: "string list option"
  Instructions :: "string list option"
  PublishedAt :: time

text \<open>\<^verbatim>\<open>for _, t := range s\<close> runs over the elements; over a nil slice it does not run.\<close>

definition elems :: "'a list option \<Rightarrow> 'a list" where
  "elems s = (case s of None \<Rightarrow> [] | Some xs \<Rightarrow> xs)"

section \<open>The string functions of the standard library\<close>

text \<open>\<^verbatim>\<open>strings.Contains(s, substr)\<close>: \<open>substr\<close> occurs in \<open>s\<close> as a contiguous run.\<close>

fun Contains :: "string \<Rightarrow> string \<Rightarrow> bool" where
  "Contains [] substr = (substr = [])"
| "Contains (c # s) substr = (prefix substr (c # s) \<or> Contains s substr)"

text \<open>
  \<^verbatim>\<open>strings.ToLower\<close> on ASCII text: the letters \<open>A\<close> to \<open>Z\<close> (bytes 65 to 90) move
  to \<open>a\<close> to \<open>z\<close>, every other byte stays. Text outside ASCII is not modelled.
\<close>

definition toLower_byte :: "char \<Rightarrow> char" where
  "toLower_byte c =
     (let n = (of_char c :: nat) in if 65 \<le> n \<and> n \<le> 90 then char_of (n + 32) else c)"

definition ToLower :: "string \<Rightarrow> string" where
  "ToLower s = map toLower_byte s"

section \<open>What a handler writes\<close>

text \<open>
  A handler answers through \<^verbatim>\<open>c.JSON(status, body)\<close>. The model of a handler returns
  the list of these calls in the order they are made, so a handler that writes twice
  shows both writes. A slice of recipes in a body is a list (the JSON rendering of a nil
  slice is not modelled).
\<close>

datatype err = ErrBind | ErrRecordNotFound | ErrDuplicatedKey | ErrMissingWhereClause
  | ErrConnection

datatype body =
    H_error string
  | H_error_of err
  | H_message string
  | JSON_Recipe Recipe
  | JSON_Recipes "Recipe list"

type_synonym response = "nat \<times> body"

abbreviation StatusOK :: nat where "StatusOK \<equiv> 200"
abbreviation StatusBadRequest :: nat where "StatusBadRequest \<equiv> 400"
abbreviation StatusNotFound :: nat where "StatusNotFound \<equiv> 404"
abbreviation StatusInternalServerError :: nat where "StatusInternalServerError \<equiv> 500"

text \<open>
  \<^verbatim>\<open>c.ShouldBindJSON(&recipe)\<close> either fails or fills a Recipe from the request body:
  the request body of a handler is a \<open>Recipe option\<close>, \<open>None\<close> when binding fails.
\<close>

section \<open>The in-memory variant\<close>

text \<open>The state is the package level slice \<^verbatim>\<open>recipes\<close>, a list of records.\<close>

text \<open>
  \<^verbatim>\<open>init\<close>: the slice is made empty, the file is read and decoded into it, and both
  errors are dropped. The argument is the decoded file, \<open>None\<close> when reading or decoding
  fails (the slice then stays empty).
\<close>

definition init_mem :: "Recipe list option \<Rightarrow> Recipe list" where
  "init_mem file = (case file of None \<Rightarrow> [] | Some decoded \<Rightarrow> decoded)"

text \<open>
  \<^verbatim>\<open>NewRecipeHandler\<close>. The arguments \<open>xid\<close> and \<open>now\<close> are what
  \<^verbatim>\<open>xid.New().String()\<close> and \<^verbatim>\<open>time.Now()\<close> return in this call.
\<close>

definition NewRecipeHandler_mem ::
  "string \<Rightarrow> time \<Rightarrow> Recipe option \<Rightarrow> Recipe list \<Rightarrow> response list \<times> Recipe list" where
  "NewRecipeHandler_mem xid now req recipes =
     (case req of
        None \<Rightarrow> ([(StatusBadRequest, H_error_of ErrBind)], recipes)
      | Some recipe \<Rightarrow>
          (let recipe = recipe\<lparr>ID := xid\<rparr>;
               recipe = recipe\<lparr>PublishedAt := now\<rparr>
           in ([(StatusOK, JSON_Recipe recipe)], recipes @ [recipe])))"

definition ListRecipesHandler_mem :: "Recipe list \<Rightarrow> response list" where
  "ListRecipesHandler_mem recipes = [(StatusOK, JSON_Recipes recipes)]"

text \<open>
  The lookup loop of the update and delete handlers:
  \<^verbatim>\<open>index := -1; for i := 0; i < len(recipes); i++ { if recipes[i].ID == id { index = i } }\<close>.
  It has no \<^verbatim>\<open>break\<close>: the last record with the id wins.
\<close>

fun index_loop :: "string \<Rightarrow> Recipe list \<Rightarrow> int \<Rightarrow> int \<Rightarrow> int" where
  "index_loop id' [] i index = index"
| "index_loop id' (r # rs) i index =
     index_loop id' rs (i + 1) (if ID r = id' then i else index)"

definition find_index :: "string \<Rightarrow> Recipe list \<Rightarrow> int" where
  "find_index id' recipes = index_loop id' recipes 0 (- 1)"

definition UpdateRecipeHandler_mem ::
  "string \<Rightarrow> Recipe option \<Rightarrow> Recipe list \<Rightarrow> response list \<times> Recipe list" where
  "UpdateRecipeHandler_mem id' req recipes =
     (case req of
        None \<Rightarrow> ([(StatusBadRequest, H_error_of ErrBind)], recipes)
      | Some recipe \<Rightarrow>
          (let index = find_index id' recipes
           in if index = - 1
              then ([(StatusNotFound, H_error ''Recipe not found'')], recipes)
              else ([(StatusOK, JSON_Recipe recipe)], recipes[nat index := recipe])))"

text \<open>
  \<^verbatim>\<open>recipes = append(recipes[:index], recipes[index+1:]...)\<close> keeps the records before
  \<open>index\<close> and those after it.
\<close>

definition DeleteRecipeHandler_mem ::
  "string \<Rightarrow> Recipe list \<Rightarrow> response list \<times> Recipe list" where
  "DeleteRecipeHandler_mem id' recipes =
     (let index = find_index id' recipes
      in if index = - 1
         then ([(StatusNotFound, H_error ''Recipe not found'')], recipes)
         else ([(StatusOK, H_message ''Recipe has been deleted'')],
               take (nat index) recipes @ drop (nat index + 1) recipes))"

text \<open>
  \<^verbatim>\<open>SearchRecipesHandler\<close>: the inner loop sets \<^verbatim>\<open>found\<close> when a tag contains the
  query as it is written (no case folding), the outer loop appends the record once.
  The query is not checked for emptiness.
\<close>

fun found_loop :: "string list \<Rightarrow> string \<Rightarrow> bool \<Rightarrow> bool" where
  "found_loop [] tag found = found"
| "found_loop (t # ts) tag found =
     found_loop ts tag (if Contains t tag then True else found)"

fun search_loop_mem :: "Recipe list \<Rightarrow> string \<Rightarrow> Recipe list \<Rightarrow> Recipe list" where
  "search_loop_mem [] tag listOfRecipes = listOfRecipes"
| "search_loop_mem (r # rs) tag listOfRecipes =
     search_loop_mem rs tag
       (if found_loop (elems (Tags r)) tag False then listOfRecipes @ [r] else listOfRecipes)"

definition SearchRecipesHandler_mem :: "string \<Rightarrow> Recipe list \<Rightarrow> response list" where
  "SearchRecipesHandler_mem tag recipes =
     [(StatusOK, JSON_Recipes (search_loop_mem recipes tag []))]"

section \<open>The database variants\<close>

subsection \<open>The table and the gorm calls the source makes\<close>

text \<open>
  The table \<^verbatim>\<open>recipes\<close> is a list of rows, in the order in which \<^verbatim>\<open>db.Find\<close>
  returns them; \<^verbatim>\<open>ID\<close> is its primary key. The flag \<open>connected\<close> says whether
  the database answers: when it does not, every call returns an error, which is how the
  handlers' \<^verbatim>\<open>err != nil\<close> branches are reached for a reason other than the data.

  The library calls are modelled from gorm's documented behaviour:
  \<^item> \<^verbatim>\<open>db.Create(&r)\<close> inserts a row and fails when a row has the same primary key;
  \<^item> \<^verbatim>\<open>db.Find(&rs)\<close> reads every row;
  \<^item> \<^verbatim>\<open>db.Where("id = ?", id).First(&r)\<close> reads the row with that key and fails with
    \<^verbatim>\<open>ErrRecordNotFound\<close> when there is none;
  \<^item> \<^verbatim>\<open>db.Delete(&r)\<close> deletes the row with the primary key of \<open>r\<close> and refuses to
    run without a key;
  \<^item> \<^verbatim>\<open>db.Model(&existing).Updates(&r)\<close>, given a struct, writes only the fields of
    \<open>r\<close> that are not the zero value of their type (the empty string, the nil slice,
    the zero time) to the row with the primary key of \<open>existing\<close>, and assigns the
    same fields to \<open>existing\<close>;
  \<^item> \<^verbatim>\<open>db.Exec("DELETE FROM recipes")\<close> empties the table.
\<close>

record DB =
  rows :: "Recipe list"
  connected :: bool

definition db_Create :: "Recipe \<Rightarrow> DB \<Rightarrow> err + DB" where
  "db_Create r db =
     (if \<not> connected db then Inl ErrConnection
      else if ID r \<in> set (map ID (rows db)) then Inl ErrDuplicatedKey
      else Inr (db\<lparr>rows := rows db @ [r]\<rparr>))"

definition db_Find :: "DB \<Rightarrow> err + Recipe list" where
  "db_Find db = (if \<not> connected db then Inl ErrConnection else Inr (rows db))"

definition db_First :: "string \<Rightarrow> DB \<Rightarrow> err + Recipe" where
  "db_First id' db =
     (if \<not> connected db then Inl ErrConnection
      else case find (\<lambda>r. ID r = id') (rows db) of
             None \<Rightarrow> Inl ErrRecordNotFound
           | Some r \<Rightarrow> Inr r)"

definition db_Delete :: "Recipe \<Rightarrow> DB \<Rightarrow> err + DB" where
  "db_Delete r db =
     (if \<not> connected db then Inl ErrConnection
      else if ID r = [] then Inl ErrMissingWhereClause
      else Inr (db\<lparr>rows := filter (\<lambda>x. ID x \<noteq> ID r) (rows db)\<rparr>))"

definition assign_nonzero :: "Recipe \<Rightarrow> Recipe \<Rightarrow> Recipe" where
  "assign_nonzero old r =
     old\<lparr>ID := (if ID r = [] then ID old else ID r),
         Name := (if Name r = [] then Name old else Name r),
         Tags := (if Tags r = None then Tags old else Tags r),
         Ingredients := (if Ingredients r = None then Ingredients old else Ingredients r),
         Instructions := (if Instructions r = None then Instructions old else Instructions r),
         PublishedAt := (if PublishedAt r = 0 then PublishedAt old else PublishedAt r)\<rparr>"

definition db_Updates :: "Recipe \<Rightarrow> Recipe \<Rightarrow> DB \<Rightarrow> err + (Recipe \<times> DB)" where
  "db_Updates existing r db =
     (if \<not> connected db then Inl ErrConnection
      else if ID existing = [] then Inl ErrMissingWhereClause
      else Inr (assign_nonzero existing r,
                db\<lparr>rows := map (\<lambda>x. if ID x = ID existing then assign_nonzero x r else x)
                               (rows db)\<rparr>))"

definition db_Exec_DELETE_FROM_recipes :: "DB \<Rightarrow> err + DB" where
  "db_Exec_DELETE_FROM_recipes db =
     (if \<not> connected db then Inl ErrConnection else Inr (db\<lparr>rows := []\<rparr>))"

subsection \<open>The bulk load\<close>

text \<open>
  \<^verbatim>\<open>loadInitialData\<close>. The argument \<open>file\<close> is the decoded file, \<open>None\<close> when reading
  or decoding fails. \<open>xid i\<close> and \<open>now i\<close> are what \<^verbatim>\<open>xid.New().String()\<close> and
  \<^verbatim>\<open>time.Now()\<close> return when they are called in the iteration for record \<open>i\<close> of the
  file. Every \<^verbatim>\<open>log.Fatalf\<close> ends the program: the result is \<open>Inl\<close> of its message.
\<close>

datatype fatal =
    Error_reading_or_parsing
  | Error_clearing_recipes_table err
  | Error_inserting_recipe string err

fun load_loop ::
  "(nat \<Rightarrow> string) \<Rightarrow> (nat \<Rightarrow> time) \<Rightarrow> nat \<Rightarrow> Recipe list \<Rightarrow> DB \<Rightarrow> fatal + DB" where
  "load_loop xid now i [] db = Inr db"
| "load_loop xid now i (recipe # rest) db =
     (let recipe = (if ID recipe = [] then recipe\<lparr>ID := xid i\<rparr> else recipe);
          recipe = (if PublishedAt recipe = 0 then recipe\<lparr>PublishedAt := now i\<rparr> else recipe)
      in case db_Create recipe db of
           Inl e \<Rightarrow> Inl (Error_inserting_recipe (Name recipe) e)
         | Inr db' \<Rightarrow> load_loop xid now (i + 1) rest db')"

definition loadInitialData ::
  "(nat \<Rightarrow> string) \<Rightarrow> (nat \<Rightarrow> time) \<Rightarrow> Recipe list option \<Rightarrow> DB \<Rightarrow> fatal + DB" where
  "loadInitialData xid now file db =
     (case file of
        None \<Rightarrow> Inl Error_reading_or_parsing
      | Some recipes \<Rightarrow>
          (case db_Exec_DELETE_FROM_recipes db of
             Inl e \<Rightarrow> Inl (Error_clearing_recipes_table e)
           | Inr db' \<Rightarrow> load_loop xid now 0 recipes db'))"

subsection \<open>The handlers\<close>

definition NewRecipeHandler_db ::
  "string \<Rightarrow> time \<Rightarrow> Recipe option \<Rightarrow> DB \<Rightarrow> response list \<times> DB" where
  "NewRecipeHandler_db xid now req db =
     (case req of
        None \<Rightarrow> ([(StatusBadRequest, H_error_of ErrBind)], db)
      | Some recipe \<Rightarrow>
          (let recipe = recipe\<lparr>ID := xid\<rparr>;
               recipe = recipe\<lparr>PublishedAt := now\<rparr>
           in case db_Create recipe db of
                Inl e \<Rightarrow> ([(StatusInternalServerError, H_error_of e)], db)
              | Inr db' \<Rightarrow> ([(StatusOK, JSON_Recipe recipe)], db')))"

definition ListRecipesHandler_db :: "DB \<Rightarrow> response list" where
  "ListRecipesHandler_db db =
     (case db_Find db of
        Inl e \<Rightarrow> [(StatusInternalServerError, H_error ''Failed to fetch recipes'')]
      | Inr recipes \<Rightarrow> [(StatusOK, JSON_Recipes recipes)])"

definition UpdateRecipeHandler_db ::
  "string \<Rightarrow> Recipe option \<Rightarrow> DB \<Rightarrow> response list \<times> DB" where
  "UpdateRecipeHandler_db id' req db =
     (case req of
        None \<Rightarrow> ([(StatusBadRequest, H_error_of ErrBind)], db)
      | Some recipe \<Rightarrow>
          (case db_First id' db of
             Inl e \<Rightarrow> ([(StatusNotFound, H_error ''Recipe not found'')], db)
           | Inr existingRecipe \<Rightarrow>
               (let recipe = recipe\<lparr>ID := ID existingRecipe\<rparr>;
                    recipe = recipe\<lparr>PublishedAt := PublishedAt existingRecipe\<rparr>
                in case db_Updates existingRecipe recipe db of
                     Inl e \<Rightarrow>
                       ([(StatusInternalServerError, H_error ''Failed to update recipe'')], db)
                   | Inr (existingRecipe, db') \<Rightarrow>
                       ([(StatusOK, JSON_Recipe existingRecipe)], db'))))"

definition DeleteRecipeHandler_db :: "string \<Rightarrow> DB \<Rightarrow> response list \<times> DB" where
  "DeleteRecipeHandler_db id' db =
     (case db_First id' db of
        Inl e \<Rightarrow> ([(StatusNotFound, H_error ''Recipe not found'')], db)
      | Inr recipe \<Rightarrow>
          (case db_Delete recipe db of
             Inl e \<Rightarrow>
               ([(StatusInternalServerError, H_error ''Failed to delete the recipe'')], db)
           | Inr db' \<Rightarrow> ([(StatusOK, H_message ''Recipe has been deleted'')], db')))"

text \<open>
  \<^verbatim>\<open>SearchRecipesHandler\<close>. The branch for the empty tag writes the 400 answer and has
  no \<^verbatim>\<open>return\<close>: the handler goes on, so what it writes there is prepended to what the
  rest of the body writes. The inner loop appends the record at every tag that matches.
\<close>

fun tags_loop_db :: "Recipe \<Rightarrow> string list \<Rightarrow> string \<Rightarrow> Recipe list \<Rightarrow> Recipe list" where
  "tags_loop_db recipe [] lowerTag listOfRecipes = listOfRecipes"
| "tags_loop_db recipe (t # ts) lowerTag listOfRecipes =
     tags_loop_db recipe ts lowerTag
       (if Contains (ToLower t) lowerTag then listOfRecipes @ [recipe] else listOfRecipes)"

fun search_loop_db :: "Recipe list \<Rightarrow> string \<Rightarrow> Recipe list \<Rightarrow> Recipe list" where
  "search_loop_db [] lowerTag listOfRecipes = listOfRecipes"
| "search_loop_db (recipe # rest) lowerTag listOfRecipes =
     search_loop_db rest lowerTag
       (tags_loop_db recipe (elems (Tags recipe)) lowerTag listOfRecipes)"

definition SearchRecipesHandler_db :: "string \<Rightarrow> DB \<Rightarrow> response list" where
  "SearchRecipesHandler_db tag db =
     (if tag = [] then [(StatusBadRequest, H_error ''Tag is required'')] else []) @
     (case db_Find db of
        Inl e \<Rightarrow> [(StatusInternalServerError, H_error ''Failed to search recipes'')]
      | Inr recipes \<Rightarrow>
          (let lowerTag = ToLower tag
           in [(StatusOK, JSON_Recipes (search_loop_db recipes lowerTag []))]))"

section \<open>The identifier generator and the router\<close>

text \<open>
  Modelled from the spec: the Identifier generator (section 4.2 of the specification),
  which the source reaches as \<^verbatim>\<open>xid.New().String()\<close> in the library
  \<^verbatim>\<open>github.com/rs/xid\<close>; the library is not part of the source files. The
  specification asks for string identifiers that are globally unique, never reused, and
  that compare in the order of their creation. The model numbers the calls of the
  generator from 0: the identifier of call \<open>n\<close> is the character \<open>1\<close> written
  \<open>n + 1\<close> times, so every identifier is non-empty, two calls never give the same
  identifier, and an earlier identifier is a proper prefix of every later one (it compares
  lower).
\<close>

definition new_identifier :: "nat \<Rightarrow> string" where
  "new_identifier n = replicate (Suc n) CHR ''1''"

text \<open>
  \<^verbatim>\<open>main\<close> registers five routes. A request is one of them together with what its
  handler reads: the bound body, the id of the path, the tag of the query and, for a
  create, the time that \<^verbatim>\<open>time.Now()\<close> returns.
\<close>

datatype request =
    POST_recipes "Recipe option" time
  | GET_recipes
  | PUT_recipes string "Recipe option"
  | DELETE_recipes string
  | GET_recipes_search string

text \<open>
  A running process holds its store (the slice, or the table) and the number of
  identifiers the generator has produced so far. The router serves one request after the
  other. The create handlers call the generator once, after the body is bound, so a
  create whose body does not bind leaves the generator alone; no other handler calls it.
  The argument \<open>gen\<close> is the generator: \<open>gen n\<close> is the identifier of its call
  number \<open>n\<close>.
\<close>

record 'st process =
  store :: 'st
  issued :: nat

definition serve_mem ::
  "(nat \<Rightarrow> string) \<Rightarrow> request \<Rightarrow> Recipe list process \<Rightarrow> response list \<times> Recipe list process" where
  "serve_mem gen q p =
     (case q of
        POST_recipes req now \<Rightarrow>
          (case NewRecipeHandler_mem (gen (issued p)) now req (store p) of
             (out, recipes) \<Rightarrow>
               (out, p\<lparr>store := recipes,
                       issued := (if req = None then issued p else Suc (issued p))\<rparr>))
      | GET_recipes \<Rightarrow> (ListRecipesHandler_mem (store p), p)
      | PUT_recipes id' req \<Rightarrow>
          (case UpdateRecipeHandler_mem id' req (store p) of
             (out, recipes) \<Rightarrow> (out, p\<lparr>store := recipes\<rparr>))
      | DELETE_recipes id' \<Rightarrow>
          (case DeleteRecipeHandler_mem id' (store p) of
             (out, recipes) \<Rightarrow> (out, p\<lparr>store := recipes\<rparr>))
      | GET_recipes_search tag \<Rightarrow> (SearchRecipesHandler_mem tag (store p), p))"

definition serve_db ::
  "(nat \<Rightarrow> string) \<Rightarrow> request \<Rightarrow> DB process \<Rightarrow> response list \<times> DB process" where
  "serve_db gen q p =
     (case q of
        POST_recipes req now \<Rightarrow>
          (case NewRecipeHandler_db (gen (issued p)) now req (store p) of
             (out, db) \<Rightarrow>
               (out, p\<lparr>store := db,
                       issued := (if req = None then issued p else Suc (issued p))\<rparr>))
      | GET_recipes \<Rightarrow> (ListRecipesHandler_db (store p), p)
      | PUT_recipes id' req \<Rightarrow>
          (case UpdateRecipeHandler_db id' req (store p) of
             (out, db) \<Rightarrow> (out, p\<lparr>store := db\<rparr>))
      | DELETE_recipes id' \<Rightarrow>
          (case DeleteRecipeHandler_db id' (store p) of
             (out, db) \<Rightarrow> (out, p\<lparr>store := db\<rparr>))
      | GET_recipes_search tag \<Rightarrow> (SearchRecipesHandler_db tag (store p), p))"

text \<open>A run serves the requests in order and logs each request with what was written.\<close>

fun run_mem ::
  "(nat \<Rightarrow> string) \<Rightarrow> request list \<Rightarrow> Recipe list process \<Rightarrow> (request \<times> response list) list" where
  "run_mem gen [] p = []"
| "run_mem gen (q # qs) p =
     (case serve_mem gen q p of (out, p') \<Rightarrow> (q, out) # run_mem gen qs p')"

fun run_db ::
  "(nat \<Rightarrow> string) \<Rightarrow> request list \<Rightarrow> DB process \<Rightarrow> (request \<times> response list) list" where
  "run_db gen [] p = []"
| "run_db gen (q # qs) p =
     (case serve_db gen q p of (out, p') \<Rightarrow> (q, out) # run_db gen qs p')"

text \<open>
  The records that the creates of a log answered with (status 200 and a recipe), in the
  order of the log, and the bodies and times of the creates of a request list whose body
  binds.
\<close>

fun recipe_of :: "response \<Rightarrow> Recipe list" where
  "recipe_of (code, JSON_Recipe r) = (if code = StatusOK then [r] else [])"
| "recipe_of (code, other_body) = []"

fun created :: "(request \<times> response list) list \<Rightarrow> Recipe list" where
  "created [] = []"
| "created ((POST_recipes req now, out) # log) = concat (map recipe_of out) @ created log"
| "created ((q, out) # log) = created log"

fun posts :: "request list \<Rightarrow> (Recipe \<times> time) list" where
  "posts [] = []"
| "posts (POST_recipes (Some input) now # qs) = (input, now) # posts qs"
| "posts (q # qs) = posts qs"

section \<open>The records of the specification's scenario\<close>

text \<open>
  Record A is tagged \<open>italian\<close> and \<open>pasta\<close>, record B is tagged \<open>dessert\<close>. The body
  \<open>cake\<close> is what binding leaves of the request \<^verbatim>\<open>{"name": "Cake", "ingredients": [],
  "instructions": []}\<close>: no id, no tags (a nil slice), the zero time. The body \<open>other\<close>
  carries an id and a time of its own. The record \<open>soup\<close> is an entry of the data file
  with neither id nor time.
\<close>

definition recipe_A :: Recipe where
  "recipe_A = \<lparr>ID = ''a'', Name = ''Carbonara'', Tags = Some [''italian'', ''pasta''],
     Ingredients = Some [''eggs''], Instructions = Some [''boil''], PublishedAt = 1\<rparr>"

definition recipe_B :: Recipe where
  "recipe_B = \<lparr>ID = ''b'', Name = ''Tiramisu'', Tags = Some [''dessert''],
     Ingredients = Some [''coffee''], Instructions = Some [''chill''], PublishedAt = 2\<rparr>"

definition cake :: Recipe where
  "cake = \<lparr>ID = [], Name = ''Cake'', Tags = None,
     Ingredients = Some [], Instructions = Some [], PublishedAt = 0\<rparr>"

definition other :: Recipe where
  "other = \<lparr>ID = ''other'', Name = ''Cake'', Tags = Some [],
     Ingredients = Some [], Instructions = Some [], PublishedAt = 7\<rparr>"

definition soup :: Recipe where
  "soup = \<lparr>ID = [], Name = ''Soup'', Tags = Some [''hot''],
     Ingredients = None, Instructions = None, PublishedAt = 0\<rparr>"

definition table_AB :: DB where
  "table_AB = \<lparr>rows = [recipe_A, recipe_B], connected = True\<rparr>"

section \<open>The lookup loop\<close>

text \<open>
  The loop leaves \<open>index\<close> alone when no record has the id, and otherwise ends at the
  position of the last record with the id.
\<close>

lemma index_loop_absent:
  "id' \<notin> ID ` set rs \<Longrightarrow> index_loop id' rs i index = index"
  by (induction rs arbitrary: i index) auto

lemma index_loop_present:
  "id' \<in> ID ` set rs \<Longrightarrow>
     \<exists>k<length rs. index_loop id' rs i index = i + int k \<and> ID (rs ! k) = id' \<and>
        (\<forall>j. k < j \<and> j < length rs \<longrightarrow> ID (rs ! j) \<noteq> id')"
proof (induction rs arbitrary: i index)
  case Nil
  then show ?case by simp
next
  case (Cons r rs)
  show ?case
  proof (cases "id' \<in> ID ` set rs")
    case True
    from Cons.IH [OF True, of "i + 1" "if ID r = id' then i else index"]
    obtain k where k: "k < length rs"
      "index_loop id' rs (i + 1) (if ID r = id' then i else index) = i + 1 + int k"
      "ID (rs ! k) = id'" "\<forall>j. k < j \<and> j < length rs \<longrightarrow> ID (rs ! j) \<noteq> id'"
      by blast
    show ?thesis
    proof (intro exI [of _ "Suc k"] conjI)
      show "Suc k < length (r # rs)" using k(1) by simp
      show "index_loop id' (r # rs) i index = i + int (Suc k)" using k(2) by simp
      show "ID ((r # rs) ! Suc k) = id'" using k(3) by simp
      show "\<forall>j. Suc k < j \<and> j < length (r # rs) \<longrightarrow> ID ((r # rs) ! j) \<noteq> id'"
      proof (intro allI impI)
        fix j assume j: "Suc k < j \<and> j < length (r # rs)"
        then obtain j' where "j = Suc j'" by (cases j) auto
        with j k(4) show "ID ((r # rs) ! j) \<noteq> id'" by simp
      qed
    qed
  next
    case False
    with Cons.prems have r: "ID r = id'" by auto
    show ?thesis
    proof (intro exI [of _ 0] conjI)
      show "0 < length (r # rs)" by simp
      show "index_loop id' (r # rs) i index = i + int 0"
        using r False by (simp add: index_loop_absent)
      show "ID ((r # rs) ! 0) = id'" using r by simp
      show "\<forall>j. 0 < j \<and> j < length (r # rs) \<longrightarrow> ID ((r # rs) ! j) \<noteq> id'"
      proof (intro allI impI)
        fix j assume j: "0 < j \<and> j < length (r # rs)"
        then obtain j' where j': "j = Suc j'" by (cases j) auto
        with j have "rs ! j' \<in> set rs" by simp
        with False have "ID (rs ! j') \<noteq> id'" by blast
        with j' show "ID ((r # rs) ! j) \<noteq> id'" by simp
      qed
    qed
  qed
qed

lemma find_index_absent: "id' \<notin> ID ` set recipes \<Longrightarrow> find_index id' recipes = - 1"
  by (simp add: find_index_def index_loop_absent)

lemma find_index_present:
  assumes "id' \<in> ID ` set recipes"
  obtains k where "k < length recipes" "find_index id' recipes = int k"
    "ID (recipes ! k) = id'" "\<forall>j. k < j \<and> j < length recipes \<longrightarrow> ID (recipes ! j) \<noteq> id'"
  using index_loop_present [OF assms, of 0 "- 1"] unfolding find_index_def by auto

lemma find_index_eq_minus_one:
  "find_index id' recipes = - 1 \<longleftrightarrow> id' \<notin> ID ` set recipes"
proof
  assume m: "find_index id' recipes = - 1"
  show "id' \<notin> ID ` set recipes"
  proof
    assume "id' \<in> ID ` set recipes"
    then obtain k where "find_index id' recipes = int k" by (rule find_index_present)
    with m show False by simp
  qed
qed (rule find_index_absent)

section \<open>Unknown ids\<close>

text \<open>
  Claim C9. When no record of the store has the id, update (with a body that binds) and
  delete answer 404 "Recipe not found" and return the store as it was: the slice of the
  in-memory variant and the table of the database variants are unchanged.
\<close>

theorem unknown_id_not_found_and_unchanged:
  assumes "id' \<notin> ID ` set recipes" and "id' \<notin> ID ` set (rows db)"
  shows "UpdateRecipeHandler_mem id' (Some input) recipes =
           ([(StatusNotFound, H_error ''Recipe not found'')], recipes) \<and>
         DeleteRecipeHandler_mem id' recipes =
           ([(StatusNotFound, H_error ''Recipe not found'')], recipes) \<and>
         UpdateRecipeHandler_db id' (Some input) db =
           ([(StatusNotFound, H_error ''Recipe not found'')], db) \<and>
         DeleteRecipeHandler_db id' db =
           ([(StatusNotFound, H_error ''Recipe not found'')], db)"
proof -
  have i: "find_index id' recipes = - 1" using assms(1) by (rule find_index_absent)
  have "find (\<lambda>r. ID r = id') (rows db) = None"
    using assms(2) by (auto simp: find_None_iff)
  then have f: "\<exists>e. db_First id' db = Inl e" by (simp add: db_First_def)
  show ?thesis
    using i f by (auto simp: UpdateRecipeHandler_mem_def DeleteRecipeHandler_mem_def
        UpdateRecipeHandler_db_def DeleteRecipeHandler_db_def)
qed

theorem unknown_id_witness:
  "''c'' \<notin> ID ` set [recipe_A, recipe_B] \<and> ''c'' \<notin> ID ` set (rows table_AB) \<and>
   UpdateRecipeHandler_mem ''c'' (Some cake) [recipe_A, recipe_B] =
     ([(StatusNotFound, H_error ''Recipe not found'')], [recipe_A, recipe_B]) \<and>
   DeleteRecipeHandler_mem ''c'' [recipe_A, recipe_B] =
     ([(StatusNotFound, H_error ''Recipe not found'')], [recipe_A, recipe_B]) \<and>
   UpdateRecipeHandler_db ''c'' (Some cake) table_AB =
     ([(StatusNotFound, H_error ''Recipe not found'')], table_AB) \<and>
   DeleteRecipeHandler_db ''c'' table_AB =
     ([(StatusNotFound, H_error ''Recipe not found'')], table_AB)"
proof -
  have h1: "''c'' \<notin> ID ` set [recipe_A, recipe_B]"
    by (simp add: recipe_A_def recipe_B_def)
  have h2: "''c'' \<notin> ID ` set (rows table_AB)"
    by (simp add: table_AB_def recipe_A_def recipe_B_def)
  show ?thesis
    using h1 h2 unknown_id_not_found_and_unchanged [OF h1 h2, of cake] by simp
qed

section \<open>Positions in the in-memory slice\<close>

text \<open>
  Claim C10. In the in-memory variant, when some record has the id, the lookup ends at
  the position \<open>i\<close> of the last such record; delete leaves the records before \<open>i\<close>
  followed by the records after \<open>i\<close> (one record less, the others in their order), and
  update puts the body at position \<open>i\<close> and leaves every other position as it was.
\<close>

theorem mem_delete_update_positions:
  assumes "id' \<in> ID ` set recipes"
  shows "\<exists>i<length recipes.
           ID (recipes ! i) = id' \<and>
           (\<forall>j. i < j \<and> j < length recipes \<longrightarrow> ID (recipes ! j) \<noteq> id') \<and>
           snd (DeleteRecipeHandler_mem id' recipes) = take i recipes @ drop (Suc i) recipes \<and>
           snd (UpdateRecipeHandler_mem id' (Some input) recipes) = recipes[i := input]"
proof -
  from assms obtain k where k: "k < length recipes" "find_index id' recipes = int k"
    "ID (recipes ! k) = id'" "\<forall>j. k < j \<and> j < length recipes \<longrightarrow> ID (recipes ! j) \<noteq> id'"
    by (rule find_index_present)
  have "snd (DeleteRecipeHandler_mem id' recipes) = take k recipes @ drop (Suc k) recipes"
    using k(2) by (simp add: DeleteRecipeHandler_mem_def)
  moreover have "snd (UpdateRecipeHandler_mem id' (Some input) recipes) = recipes[k := input]"
    using k(2) by (simp add: UpdateRecipeHandler_mem_def)
  ultimately show ?thesis using k by blast
qed

theorem mem_delete_update_positions_witness:
  "''a'' \<in> ID ` set [recipe_A, recipe_B] \<and>
   (\<exists>i<length [recipe_A, recipe_B].
      ID ([recipe_A, recipe_B] ! i) = ''a'' \<and>
      (\<forall>j. i < j \<and> j < length [recipe_A, recipe_B] \<longrightarrow> ID ([recipe_A, recipe_B] ! j) \<noteq> ''a'') \<and>
      snd (DeleteRecipeHandler_mem ''a'' [recipe_A, recipe_B]) =
        take i [recipe_A, recipe_B] @ drop (Suc i) [recipe_A, recipe_B] \<and>
      snd (UpdateRecipeHandler_mem ''a'' (Some cake) [recipe_A, recipe_B]) =
        [recipe_A, recipe_B][i := cake])"
proof -
  have h: "''a'' \<in> ID ` set [recipe_A, recipe_B]"
    by (simp add: recipe_A_def)
  show ?thesis
    using h mem_delete_update_positions [OF h, of cake] by blast
qed

section \<open>The search loops\<close>

text \<open>\<^verbatim>\<open>strings.Contains\<close> is the contiguous-sublist relation.\<close>

lemma Contains_iff: "Contains s substr \<longleftrightarrow> (\<exists>ps ss. s = ps @ substr @ ss)"
proof -
  have "Contains s substr \<longleftrightarrow> sublist substr s"
    by (induction s) (auto simp: sublist_Cons_right)
  then show ?thesis by (simp add: sublist_def)
qed

lemma ToLower_PASTA: "ToLower ''PASTA'' = ''pasta''"
  by code_simp

lemma ToLower_lower_case:
  "ToLower ''italian'' = ''italian''" "ToLower ''pasta'' = ''pasta''"
  "ToLower ''dessert'' = ''dessert''" "ToLower ''a'' = ''a''" "ToLower [] = []"
  by code_simp+

text \<open>
  The in-memory search keeps the records with a tag that contains the query, each once
  and in the order of the slice.
\<close>

lemma found_loop_eq:
  "found_loop ts tag found \<longleftrightarrow> found \<or> (\<exists>t\<in>set ts. Contains t tag)"
  by (induction ts arbitrary: found) auto

lemma search_loop_mem_eq:
  "search_loop_mem rs tag acc =
     acc @ filter (\<lambda>r. \<exists>t\<in>set (elems (Tags r)). Contains t tag) rs"
  by (induction rs arbitrary: acc) (auto simp: found_loop_eq)

lemma SearchRecipesHandler_mem_filter:
  "SearchRecipesHandler_mem tag recipes =
     [(StatusOK, JSON_Recipes (filter (\<lambda>r. \<exists>t\<in>set (elems (Tags r)). Contains t tag) recipes))]"
  by (simp add: SearchRecipesHandler_mem_def search_loop_mem_eq)

text \<open>
  The database search appends a record as many times as it has tags whose lower case
  contains the lower case of the query; the records it returns are those with such a tag.
\<close>

lemma tags_loop_db_eq:
  "tags_loop_db r ts lowerTag acc =
     acc @ replicate (length (filter (\<lambda>t. Contains (ToLower t) lowerTag) ts)) r"
  by (induction ts arbitrary: acc) (auto simp: replicate_append_same)

lemma set_tags_loop_db:
  "set (tags_loop_db r ts lowerTag acc) =
     set acc \<union> (if \<exists>t\<in>set ts. Contains (ToLower t) lowerTag then {r} else {})"
  by (induction ts arbitrary: acc) auto

lemma set_search_loop_db:
  "set (search_loop_db rs lowerTag acc) =
     set acc \<union> {r \<in> set rs. \<exists>t\<in>set (elems (Tags r)). Contains (ToLower t) lowerTag}"
  by (induction rs arbitrary: acc) (auto simp: set_tags_loop_db)

lemma SearchRecipesHandler_db_matches:
  assumes "connected db"
  shows "\<exists>rs. (StatusOK, JSON_Recipes rs) \<in> set (SearchRecipesHandler_db tag db) \<and>
           (\<forall>r. r \<in> set rs \<longleftrightarrow>
                  r \<in> set (rows db) \<and>
                  (\<exists>t\<in>set (elems (Tags r)). Contains (ToLower t) (ToLower tag)))"
  using assms
  by (auto simp: SearchRecipesHandler_db_def db_Find_def Let_def set_search_loop_db)

section \<open>Update\<close>

text \<open>
  The database update answers with the id under which the row was found and with the
  time the row had: the handler copies both into the body before it calls
  \<^verbatim>\<open>Updates\<close>.
\<close>

lemma UpdateRecipeHandler_db_keeps_id_and_publishedAt:
  assumes "UpdateRecipeHandler_db id' (Some input) db = ([(StatusOK, JSON_Recipe r)], db')"
  shows "\<exists>existing. db_First id' db = Inr existing \<and> ID existing = id' \<and>
           ID r = id' \<and> PublishedAt r = PublishedAt existing"
proof (cases "db_First id' db")
  case (Inl e)
  with assms show ?thesis by (simp add: UpdateRecipeHandler_db_def)
next
  case (Inr existing)
  then have "find (\<lambda>r. ID r = id') (rows db) = Some existing"
    by (auto simp: db_First_def split: if_splits option.splits)
  then have e: "ID existing = id'" by (auto simp: find_Some_iff)
  from assms Inr have "r = assign_nonzero existing
      (input\<lparr>ID := ID existing, PublishedAt := PublishedAt existing\<rparr>)"
    by (auto simp: UpdateRecipeHandler_db_def db_Updates_def Let_def split: if_splits)
  then have "ID r = ID existing \<and> PublishedAt r = PublishedAt existing"
    by (simp add: assign_nonzero_def)
  with Inr e show ?thesis by simp
qed

text \<open>
  Claim C1 (update keeps the stored id and publishedAt whatever the body supplies) fails
  in the in-memory variant, which stores and returns the body as it is. Record A is
  stored under the id \<open>a\<close> with time 1; after an update of \<open>a\<close> with a body that
  carries the id \<open>other\<close> and the time 7, the answer and the slice hold the id
  \<open>other\<close> and the time 7.
\<close>

theorem mem_update_takes_id_and_time_from_body:
  "UpdateRecipeHandler_mem ''a'' (Some other) [recipe_A, recipe_B] =
     ([(StatusOK, JSON_Recipe other)], [other, recipe_B]) \<and>
   ID recipe_A = ''a'' \<and> ID other = ''other'' \<and>
   PublishedAt recipe_A = 1 \<and> PublishedAt other = 7"
  by (simp add: UpdateRecipeHandler_mem_def find_index_def recipe_A_def recipe_B_def other_def)

text \<open>
  The in-memory update is a full replace: the record at the position the lookup ends at
  becomes the body.
\<close>

lemma UpdateRecipeHandler_mem_present:
  assumes "id' \<in> ID ` set recipes"
  shows "\<exists>i<length recipes. ID (recipes ! i) = id' \<and>
           UpdateRecipeHandler_mem id' (Some input) recipes =
             ([(StatusOK, JSON_Recipe input)], recipes[i := input])"
proof -
  from assms obtain k where k: "k < length recipes" "find_index id' recipes = int k"
    "ID (recipes ! k) = id'"
    by (rule find_index_present)
  then show ?thesis by (auto simp: UpdateRecipeHandler_mem_def)
qed

text \<open>
  Claim C2 (update replaces name, tags, ingredients and instructions by the body's
  values; omitted tags leave an empty tag list) fails in the database variants, where
  \<^verbatim>\<open>Updates\<close> skips the fields of the body that are zero. Record B is tagged
  \<open>dessert\<close>; after an update of \<open>b\<close> with the body \<open>cake\<close>, which has no tags, the
  answer and the row still carry the tag \<open>dessert\<close>.
\<close>

theorem db_update_keeps_omitted_tags:
  "UpdateRecipeHandler_db ''b'' (Some cake) table_AB =
     ([(StatusOK, JSON_Recipe
          (recipe_B\<lparr>Name := ''Cake'', Ingredients := Some [], Instructions := Some []\<rparr>))],
      \<lparr>rows = [recipe_A,
                recipe_B\<lparr>Name := ''Cake'', Ingredients := Some [], Instructions := Some []\<rparr>],
        connected = True\<rparr>) \<and>
   Tags cake = None \<and>
   Tags (recipe_B\<lparr>Name := ''Cake'', Ingredients := Some [], Instructions := Some []\<rparr>) =
     Some [''dessert'']"
  by (simp add: UpdateRecipeHandler_db_def db_First_def db_Updates_def assign_nonzero_def
      table_AB_def recipe_A_def recipe_B_def cake_def)

section \<open>Search\<close>

text \<open>
  Claim C3 (a record matches when the lower case of one of its tags contains the lower
  case of the query) fails in the in-memory variant, which compares without folding
  case. The lower case of the tag \<open>pasta\<close> contains the lower case of the query
  \<open>PASTA\<close>, and the search for \<open>PASTA\<close> over records A and B finds nothing.
\<close>

theorem mem_search_is_case_sensitive:
  "Contains (ToLower ''pasta'') (ToLower ''PASTA'') \<and>
   Tags recipe_A = Some [''italian'', ''pasta''] \<and>
   SearchRecipesHandler_mem ''PASTA'' [recipe_A, recipe_B] = [(StatusOK, JSON_Recipes [])]"
  by (simp add: ToLower_PASTA ToLower_lower_case SearchRecipesHandler_mem_def
      recipe_A_def recipe_B_def elems_def)

text \<open>
  Claim C4 (a search with the empty tag fails with a validation error and does not scan)
  fails in every variant. The database handler writes the 400 answer and then scans all
  the same and writes a 200 answer with every tagged record, once per tag; the in-memory
  handler has no check and answers 200 with every tagged record.
\<close>

theorem search_with_empty_tag_scans:
  "SearchRecipesHandler_db [] table_AB =
     [(StatusBadRequest, H_error ''Tag is required''),
      (StatusOK, JSON_Recipes [recipe_A, recipe_A, recipe_B])] \<and>
   SearchRecipesHandler_mem [] [recipe_A, recipe_B] =
     [(StatusOK, JSON_Recipes [recipe_A, recipe_B])]"
  by (simp add: SearchRecipesHandler_db_def SearchRecipesHandler_mem_def db_Find_def
      table_AB_def recipe_A_def recipe_B_def elems_def ToLower_lower_case)

text \<open>
  Claim C5 (each matching record appears exactly once in the result) fails in the
  database variants, whose inner loop appends the record at every matching tag. Both
  tags of record A, \<open>italian\<close> and \<open>pasta\<close>, contain the query \<open>a\<close>, and the search
  for \<open>a\<close> returns record A twice.
\<close>

theorem db_search_repeats_record_per_matching_tag:
  "SearchRecipesHandler_db ''a'' table_AB = [(StatusOK, JSON_Recipes [recipe_A, recipe_A])]"
  by (simp add: SearchRecipesHandler_db_def db_Find_def Let_def
      table_AB_def recipe_A_def recipe_B_def elems_def ToLower_lower_case)

section \<open>Create\<close>

text \<open>
  The modelled generator is injective, never returns the empty string, and an earlier
  identifier is a proper prefix of a later one.
\<close>

lemma inj_new_identifier: "inj new_identifier"
  by (rule injI) (simp add: new_identifier_def)

lemma new_identifier_nonempty: "new_identifier n \<noteq> []"
  by (simp add: new_identifier_def)

lemma new_identifier_sortable: "m < n \<Longrightarrow> strict_prefix (new_identifier m) (new_identifier n)"
proof -
  assume "m < n"
  then have "Suc n = Suc m + (n - m)" by simp
  then have "new_identifier n = new_identifier m @ replicate (n - m) CHR ''1''"
    unfolding new_identifier_def by (metis replicate_add)
  with \<open>m < n\<close> show ?thesis by (auto simp: strict_prefix_def prefix_def)
qed

text \<open>
  Runs, for any generator \<open>gen\<close>. In the in-memory variant the creates answer with the
  bound bodies, in order, each with the identifier of the next call and its time. In the
  database variants a create may fail, and the ids of the records that were created are
  the identifiers of strictly increasing calls.
\<close>

lemma created_run_mem:
  "created (run_mem gen qs p) =
     map (\<lambda>(k, input, now). input\<lparr>ID := gen k, PublishedAt := now\<rparr>)
         (zip [issued p..<issued p + length (posts qs)] (posts qs))"
proof (induction qs arbitrary: p)
  case Nil
  then show ?case by simp
next
  case (Cons q qs)
  show ?case
  proof (cases q)
    case (POST_recipes req now)
    show ?thesis
    proof (cases req)
      case None
      with POST_recipes show ?thesis
        by (simp add: serve_mem_def NewRecipeHandler_mem_def Cons.IH)
    next
      case (Some input)
      have u: "[issued p..<Suc (issued p + length (posts qs))] =
               issued p # [Suc (issued p)..<Suc (issued p + length (posts qs))]"
        by (subst upt_rec) simp
      from Some POST_recipes show ?thesis
        by (simp add: serve_mem_def NewRecipeHandler_mem_def Let_def Cons.IH u del: upt_Suc)
    qed
  next
    case GET_recipes
    then show ?thesis by (simp add: serve_mem_def Cons.IH)
  next
    case (PUT_recipes id' req)
    then show ?thesis by (simp add: serve_mem_def Cons.IH split: prod.splits)
  next
    case (DELETE_recipes id')
    then show ?thesis by (simp add: serve_mem_def Cons.IH split: prod.splits)
  next
    case (GET_recipes_search tag)
    then show ?thesis by (simp add: serve_mem_def Cons.IH)
  qed
qed

lemma ids_created_run_mem:
  "map ID (created (run_mem gen qs p)) =
     map gen [issued p..<issued p + length (posts qs)]"
proof -
  let ?ks = "[issued p..<issued p + length (posts qs)]"
  have "map ID (created (run_mem gen qs p)) = map (\<lambda>z. gen (fst z)) (zip ?ks (posts qs))"
    unfolding created_run_mem by (simp add: case_prod_beta)
  also have "\<dots> = map gen (map fst (zip ?ks (posts qs)))"
    by (simp only: map_map comp_def)
  also have "map fst (zip ?ks (posts qs)) = ?ks"
    by (rule map_fst_zip) simp
  finally show ?thesis .
qed

lemma NewRecipeHandler_db_cases:
  "NewRecipeHandler_db xid now (Some input) db =
     (if connected db \<and> xid \<notin> ID ` set (rows db)
      then ([(StatusOK, JSON_Recipe (input\<lparr>ID := xid, PublishedAt := now\<rparr>))],
            db\<lparr>rows := rows db @ [input\<lparr>ID := xid, PublishedAt := now\<rparr>]\<rparr>)
      else ([(StatusInternalServerError,
              H_error_of (if connected db then ErrDuplicatedKey else ErrConnection))], db))"
  by (simp add: NewRecipeHandler_db_def db_Create_def Let_def)

lemma created_Cons: "created ((q, out) # log) = created [(q, out)] @ created log"
  by (cases q) simp_all

lemma serve_db_step:
  assumes "serve_db gen q p = (out, p')"
  shows "issued p \<le> issued p' \<and>
         (map ID (created [(q, out)]) = [] \<or>
          map ID (created [(q, out)]) = [gen (issued p)] \<and> issued p' = Suc (issued p))"
proof (cases q)
  case (POST_recipes req now)
  show ?thesis
  proof (cases req)
    case None
    with POST_recipes assms show ?thesis
      by (auto simp: serve_db_def NewRecipeHandler_db_def)
  next
    case (Some input)
    with POST_recipes assms show ?thesis
      by (auto simp: serve_db_def NewRecipeHandler_db_cases split: if_splits)
  qed
next
  case GET_recipes
  with assms show ?thesis by (auto simp: serve_db_def)
next
  case (PUT_recipes id' req)
  with assms show ?thesis by (auto simp: serve_db_def split: prod.splits)
next
  case (DELETE_recipes id')
  with assms show ?thesis by (auto simp: serve_db_def split: prod.splits)
next
  case (GET_recipes_search tag)
  with assms show ?thesis by (auto simp: serve_db_def)
qed

lemma ids_created_run_db:
  "\<exists>ks. sorted_wrt (<) ks \<and> (\<forall>k\<in>set ks. issued p \<le> k) \<and>
        map ID (created (run_db gen qs p)) = map gen ks"
proof (induction qs arbitrary: p)
  case Nil
  show ?case by (rule exI [of _ "[]"]) simp
next
  case (Cons q qs)
  obtain out p' where s: "serve_db gen q p = (out, p')" by (cases "serve_db gen q p")
  from Cons.IH [of p'] obtain ks where ks: "sorted_wrt (<) ks"
    "\<forall>k\<in>set ks. issued p' \<le> k" "map ID (created (run_db gen qs p')) = map gen ks"
    by blast
  have r: "map ID (created (run_db gen (q # qs) p)) =
           map ID (created [(q, out)]) @ map gen ks"
    using s ks(3) by (simp add: created_Cons [of q out "run_db gen qs p'"])
  from serve_db_step [OF s] have le: "issued p \<le> issued p'" and
    c: "map ID (created [(q, out)]) = [] \<or>
        map ID (created [(q, out)]) = [gen (issued p)] \<and> issued p' = Suc (issued p)"
    by blast+
  from c show ?case
  proof
    assume "map ID (created [(q, out)]) = []"
    with r have "map ID (created (run_db gen (q # qs) p)) = map gen ks" by simp
    moreover have "\<forall>k\<in>set ks. issued p \<le> k" using ks(2) le by auto
    ultimately show ?thesis using ks(1) by blast
  next
    assume a: "map ID (created [(q, out)]) = [gen (issued p)] \<and> issued p' = Suc (issued p)"
    with r have "map ID (created (run_db gen (q # qs) p)) = map gen (issued p # ks)" by simp
    moreover have "sorted_wrt (<) (issued p # ks)" using ks(1,2) a by auto
    moreover have "\<forall>k\<in>set (issued p # ks). issued p \<le> k" using ks(2) a by auto
    ultimately show ?thesis by blast
  qed
qed

lemma fresh_ids:
  fixes gen :: "nat \<Rightarrow> string"
  assumes "inj gen" and "\<And>n. gen n \<noteq> []" and "sorted_wrt (<) ks"
  shows "distinct (map gen ks) \<and> [] \<notin> set (map gen ks)"
proof -
  from assms(3) have "distinct ks" by (simp add: strict_sorted_iff)
  moreover have "inj_on gen (set ks)" using assms(1) by (rule inj_on_subset) simp
  ultimately have "distinct (map gen ks)" by (simp add: distinct_map)
  moreover have "[] \<notin> set (map gen ks)" using assms(2) by (metis imageE list.set_map)
  ultimately show ?thesis ..
qed

text \<open>
  Claim C6. For every body that binds, create answers with, and stores at the end of the
  store, the body with its id replaced by the identifier the generator returns and its
  publishedAt replaced by the current time, whatever the body carried in the two fields
  (in the database variants: when the insert succeeds; otherwise it answers 500 and the
  table is unchanged). In every run of a process from any state, with any requests in
  between (updates and deletes included), the records the creates answer with are, in
  the in-memory variant, exactly the bound bodies with these two fields replaced, and in
  both variants their ids are pairwise distinct and none is empty: the id of a created
  record differs from the id of every record created before it, deleted or not.
\<close>

theorem create_assigns_fresh_id_and_time:
  "NewRecipeHandler_mem (new_identifier n) now (Some input) recipes =
     ([(StatusOK, JSON_Recipe (input\<lparr>ID := new_identifier n, PublishedAt := now\<rparr>))],
      recipes @ [input\<lparr>ID := new_identifier n, PublishedAt := now\<rparr>]) \<and>
   NewRecipeHandler_db (new_identifier n) now (Some input) db =
     (if connected db \<and> new_identifier n \<notin> ID ` set (rows db)
      then ([(StatusOK, JSON_Recipe (input\<lparr>ID := new_identifier n, PublishedAt := now\<rparr>))],
            db\<lparr>rows := rows db @ [input\<lparr>ID := new_identifier n, PublishedAt := now\<rparr>]\<rparr>)
      else ([(StatusInternalServerError,
              H_error_of (if connected db then ErrDuplicatedKey else ErrConnection))], db)) \<and>
   created (run_mem new_identifier qs p) =
     map (\<lambda>(k, input, now). input\<lparr>ID := new_identifier k, PublishedAt := now\<rparr>)
         (zip [issued p..<issued p + length (posts qs)] (posts qs)) \<and>
   distinct (map ID (created (run_mem new_identifier qs p))) \<and>
   [] \<notin> set (map ID (created (run_mem new_identifier qs p))) \<and>
   distinct (map ID (created (run_db new_identifier qs d))) \<and>
   [] \<notin> set (map ID (created (run_db new_identifier qs d)))"
proof -
  have a: "NewRecipeHandler_mem (new_identifier n) now (Some input) recipes =
     ([(StatusOK, JSON_Recipe (input\<lparr>ID := new_identifier n, PublishedAt := now\<rparr>))],
      recipes @ [input\<lparr>ID := new_identifier n, PublishedAt := now\<rparr>])"
    by (simp add: NewRecipeHandler_mem_def Let_def)
  note b = NewRecipeHandler_db_cases [of "new_identifier n" now input db]
  note c = created_run_mem [of new_identifier qs p]
  have u: "sorted_wrt (<) [issued p..<issued p + length (posts qs)]" by simp
  have m: "distinct (map ID (created (run_mem new_identifier qs p))) \<and>
    [] \<notin> set (map ID (created (run_mem new_identifier qs p)))"
    unfolding ids_created_run_mem
    by (rule fresh_ids [OF inj_new_identifier new_identifier_nonempty u])
  from ids_created_run_db [of d new_identifier qs] obtain ks where ks: "sorted_wrt (<) ks"
    "map ID (created (run_db new_identifier qs d)) = map new_identifier ks"
    by blast
  have e: "distinct (map ID (created (run_db new_identifier qs d))) \<and>
    [] \<notin> set (map ID (created (run_db new_identifier qs d)))"
    unfolding ks(2)
    by (rule fresh_ids [OF inj_new_identifier new_identifier_nonempty ks(1)])
  from a b c m e show ?thesis by blast
qed

text \<open>
  A run over records A and B: a create whose body carries the id \<open>other\<close> and the time
  7, the delete of the record it made, and a second create. The first record gets the
  identifier \<open>1\<close> and the time 5, the second the identifier \<open>11\<close> and the time 6:
  the identifier of the deleted record is not used again.
\<close>

theorem create_witness:
  "created (run_mem new_identifier
      [POST_recipes (Some other) 5, DELETE_recipes ''1'', POST_recipes (Some cake) 6]
      \<lparr>store = [recipe_A, recipe_B], issued = 0\<rparr>) =
     [other\<lparr>ID := ''1'', PublishedAt := 5\<rparr>, cake\<lparr>ID := ''11'', PublishedAt := 6\<rparr>] \<and>
   distinct (map ID (created (run_mem new_identifier
      [POST_recipes (Some other) 5, DELETE_recipes ''1'', POST_recipes (Some cake) 6]
      \<lparr>store = [recipe_A, recipe_B], issued = 0\<rparr>))) \<and>
   [] \<notin> set (map ID (created (run_mem new_identifier
      [POST_recipes (Some other) 5, DELETE_recipes ''1'', POST_recipes (Some cake) 6]
      \<lparr>store = [recipe_A, recipe_B], issued = 0\<rparr>))) \<and>
   map ID (created (run_db new_identifier
      [POST_recipes (Some other) 5, DELETE_recipes ''1'', POST_recipes (Some cake) 6]
      \<lparr>store = table_AB, issued = 0\<rparr>)) = [''1'', ''11''] \<and>
   distinct (map ID (created (run_db new_identifier
      [POST_recipes (Some other) 5, DELETE_recipes ''1'', POST_recipes (Some cake) 6]
      \<lparr>store = table_AB, issued = 0\<rparr>)))"
proof -
  have i: "new_identifier 0 = ''1''" "new_identifier (Suc 0) = ''11''"
    by (simp_all add: new_identifier_def)
  have m: "created (run_mem new_identifier
      [POST_recipes (Some other) 5, DELETE_recipes ''1'', POST_recipes (Some cake) 6]
      \<lparr>store = [recipe_A, recipe_B], issued = 0\<rparr>) =
     [other\<lparr>ID := ''1'', PublishedAt := 5\<rparr>, cake\<lparr>ID := ''11'', PublishedAt := 6\<rparr>]"
    by (simp add: serve_mem_def NewRecipeHandler_mem_def DeleteRecipeHandler_mem_def
        find_index_def Let_def i recipe_A_def recipe_B_def other_def cake_def)
  have d: "map ID (created (run_db new_identifier
      [POST_recipes (Some other) 5, DELETE_recipes ''1'', POST_recipes (Some cake) 6]
      \<lparr>store = table_AB, issued = 0\<rparr>)) = [''1'', ''11'']"
    by (simp add: serve_db_def NewRecipeHandler_db_def db_Create_def
        DeleteRecipeHandler_db_def db_First_def db_Delete_def
        Let_def i table_AB_def recipe_A_def recipe_B_def other_def cake_def)
  note t = create_assigns_fresh_id_and_time
      [of 0 5 other "[recipe_A, recipe_B]" table_AB
          "[POST_recipes (Some other) 5, DELETE_recipes ''1'', POST_recipes (Some cake) 6]"
          "\<lparr>store = [recipe_A, recipe_B], issued = 0\<rparr>"
          "\<lparr>store = table_AB, issued = 0\<rparr>"]
  from m d t show ?thesis by blast
qed

section \<open>The bulk load\<close>

text \<open>
  When the database load succeeds, the table holds exactly the records of the file, in
  their order, each with a generated id where it had none and with the current time
  where it had the zero time; what the table held before is gone.
\<close>

lemma load_loop_rows:
  "load_loop xid now i rs db = Inr db' \<Longrightarrow>
     rows db' = rows db @
       map (\<lambda>(j, r). r\<lparr>ID := (if ID r = [] then xid j else ID r),
                       PublishedAt := (if PublishedAt r = 0 then now j else PublishedAt r)\<rparr>)
           (zip [i..<i + length rs] rs)"
proof (induction rs arbitrary: i db)
  case Nil
  then show ?case by simp
next
  case (Cons r rs)
  let ?r = "r\<lparr>ID := (if ID r = [] then xid i else ID r),
                PublishedAt := (if PublishedAt r = 0 then now i else PublishedAt r)\<rparr>"
  from Cons.prems obtain db1 where c: "db_Create ?r db = Inr db1"
    and l: "load_loop xid now (Suc i) rs db1 = Inr db'"
    by (auto simp: Let_def split: sum.splits if_splits)
  from c have r1: "rows db1 = rows db @ [?r]"
    by (auto simp: db_Create_def split: if_splits)
  have u: "[i..<i + length (r # rs)] = i # [Suc i..<Suc i + length rs]"
    by (subst upt_rec) simp
  show ?case
    using Cons.IH [OF l] r1 unfolding u by simp
qed

lemma loadInitialData_rows:
  assumes "loadInitialData xid now (Some recipes) db = Inr db'"
  shows "rows db' =
       map (\<lambda>(j, r). r\<lparr>ID := (if ID r = [] then xid j else ID r),
                       PublishedAt := (if PublishedAt r = 0 then now j else PublishedAt r)\<rparr>)
           (zip [0..<length recipes] recipes)"
proof -
  from assms have "load_loop xid now 0 recipes (db\<lparr>rows := []\<rparr>) = Inr db'"
    by (auto simp: loadInitialData_def db_Exec_DELETE_FROM_recipes_def split: if_splits)
  from load_loop_rows [OF this] show ?thesis by simp
qed

text \<open>
  Claim C7 (the bulk load gives a fresh id to each record without one and the current
  time to each record without one) fails in the in-memory variant, whose \<^verbatim>\<open>init\<close>
  only decodes the file into the slice. The record \<open>soup\<close> has the empty id and the
  zero time in the file, and it is in the slice with the empty id and the zero time.
\<close>

theorem mem_init_assigns_no_id_or_time:
  "init_mem (Some [soup, recipe_B]) = [soup, recipe_B] \<and> ID soup = [] \<and> PublishedAt soup = 0"
  by (simp add: init_mem_def soup_def)

section \<open>Delete\<close>

lemma distinct_ids_removed:
  assumes "distinct (map ID recipes)" and "k < length recipes"
  shows "ID (recipes ! k) \<notin> ID ` set (take k recipes @ drop (Suc k) recipes)"
proof -
  have "map ID recipes =
          map ID (take k recipes) @ ID (recipes ! k) # map ID (drop (Suc k) recipes)"
    using id_take_nth_drop [OF assms(2)] by (metis list.simps(9) map_append)
  with assms(1) have
    "distinct (map ID (take k recipes) @ ID (recipes ! k) # map ID (drop (Suc k) recipes))"
    by simp
  then show ?thesis by auto
qed

lemma DeleteRecipeHandler_db_present:
  assumes "connected db" and "id' \<noteq> []" and "id' \<in> ID ` set (rows db)"
  shows "DeleteRecipeHandler_db id' db =
           ([(StatusOK, H_message ''Recipe has been deleted'')],
            db\<lparr>rows := filter (\<lambda>x. ID x \<noteq> id') (rows db)\<rparr>)"
proof -
  from assms(3) obtain r where "find (\<lambda>r. ID r = id') (rows db) = Some r"
    by (cases "find (\<lambda>r. ID r = id') (rows db)") (auto simp: find_None_iff)
  moreover from this have "ID r = id'" by (auto simp: find_Some_iff)
  ultimately show ?thesis
    using assms(1,2) by (simp add: DeleteRecipeHandler_db_def db_First_def db_Delete_def)
qed

text \<open>
  With pairwise distinct ids the in-memory delete leaves no record under the id, and the
  database delete leaves no row under it for any table: afterwards the lookup fails, and
  no list or search answer holds a record with the id.
\<close>

lemma DeleteRecipeHandler_mem_distinct_then_not_found:
  assumes "distinct (map ID recipes)" and "id' \<in> ID ` set recipes"
  shows "\<exists>recipes'.
           DeleteRecipeHandler_mem id' recipes =
             ([(StatusOK, H_message ''Recipe has been deleted'')], recipes') \<and>
           find_index id' recipes' = - 1 \<and>
           (\<forall>rs. (StatusOK, JSON_Recipes rs)
                    \<in> set (ListRecipesHandler_mem recipes' @ SearchRecipesHandler_mem tag recipes')
                 \<longrightarrow> id' \<notin> ID ` set rs)"
proof -
  from assms(2) obtain k where k: "k < length recipes" "find_index id' recipes = int k"
    "ID (recipes ! k) = id'"
    by (rule find_index_present)
  let ?rs = "take k recipes @ drop (Suc k) recipes"
  have m1: "DeleteRecipeHandler_mem id' recipes =
             ([(StatusOK, H_message ''Recipe has been deleted'')], ?rs)"
    using k(2) by (simp add: DeleteRecipeHandler_mem_def)
  have gone: "id' \<notin> ID ` set ?rs"
    using distinct_ids_removed [OF assms(1) k(1)] k(3) by simp
  then have m2: "find_index id' ?rs = - 1" by (rule find_index_absent)
  have m3: "\<forall>rs. (StatusOK, JSON_Recipes rs)
                    \<in> set (ListRecipesHandler_mem ?rs @ SearchRecipesHandler_mem tag ?rs)
                 \<longrightarrow> id' \<notin> ID ` set rs"
    using gone
    by (auto simp: ListRecipesHandler_mem_def SearchRecipesHandler_mem_def search_loop_mem_eq)
  from m1 m2 m3 show ?thesis by blast
qed

lemma DeleteRecipeHandler_db_then_not_found:
  assumes "connected db" and "id' \<noteq> []" and "id' \<in> ID ` set (rows db)"
  shows "\<exists>db'.
           DeleteRecipeHandler_db id' db =
             ([(StatusOK, H_message ''Recipe has been deleted'')], db') \<and>
           db_First id' db' = Inl ErrRecordNotFound \<and>
           (\<forall>rs. (StatusOK, JSON_Recipes rs)
                    \<in> set (ListRecipesHandler_db db' @ SearchRecipesHandler_db tag db')
                 \<longrightarrow> id' \<notin> ID ` set rs)"
proof -
  let ?db = "db\<lparr>rows := filter (\<lambda>x. ID x \<noteq> id') (rows db)\<rparr>"
  have d1: "DeleteRecipeHandler_db id' db =
             ([(StatusOK, H_message ''Recipe has been deleted'')], ?db)"
    using assms by (rule DeleteRecipeHandler_db_present)
  have "find (\<lambda>r. ID r = id') (rows ?db) = None"
    by (auto simp: find_None_iff)
  then have d2: "db_First id' ?db = Inl ErrRecordNotFound"
    using assms(1) by (simp add: db_First_def)
  have d3: "\<forall>rs. (StatusOK, JSON_Recipes rs)
                    \<in> set (ListRecipesHandler_db ?db @ SearchRecipesHandler_db tag ?db)
                 \<longrightarrow> id' \<notin> ID ` set rs"
    using assms(1)
    by (auto simp: ListRecipesHandler_db_def SearchRecipesHandler_db_def db_Find_def
        set_search_loop_db Let_def)
  from d1 d2 d3 show ?thesis by blast
qed

text \<open>
  Claim C8 (after a successful delete the lookup of the same id fails with not-found, and
  the record is in no list or search answer) fails in the in-memory variant. The
  in-memory update stores the id of the body, so an update of \<open>b\<close> with a body that
  carries the id \<open>a\<close> leaves two records under \<open>a\<close>; the delete of \<open>a\<close> answers with
  the confirmation and removes only the last of them; the lookup of \<open>a\<close> then still ends
  at position 0, a second delete of \<open>a\<close> answers 200 again, not 404, and the list
  still shows a record with the id \<open>a\<close>.
\<close>

theorem mem_delete_leaves_record_with_same_id:
  "UpdateRecipeHandler_mem ''b'' (Some (recipe_B\<lparr>ID := ''a''\<rparr>)) [recipe_A, recipe_B] =
     ([(StatusOK, JSON_Recipe (recipe_B\<lparr>ID := ''a''\<rparr>))], [recipe_A, recipe_B\<lparr>ID := ''a''\<rparr>]) \<and>
   DeleteRecipeHandler_mem ''a'' [recipe_A, recipe_B\<lparr>ID := ''a''\<rparr>] =
     ([(StatusOK, H_message ''Recipe has been deleted'')], [recipe_A]) \<and>
   find_index ''a'' [recipe_A] = 0 \<and>
   DeleteRecipeHandler_mem ''a'' [recipe_A] =
     ([(StatusOK, H_message ''Recipe has been deleted'')], []) \<and>
   ListRecipesHandler_mem [recipe_A] = [(StatusOK, JSON_Recipes [recipe_A])] \<and>
   ID recipe_A = ''a''"
  by (simp add: DeleteRecipeHandler_mem_def UpdateRecipeHandler_mem_def
      find_index_def ListRecipesHandler_mem_def recipe_A_def recipe_B_def)

end
